theory Spec2Isabelle
  imports Main "HOL-Library.Word"
begin

section \<open>Time based volume control: the two sketches\<close>

text \<open>
  The repository holds two Arduino UNO sketches. \<^verbatim>\<open>TBC-volume-control.ino\<close> moves a
  mixer knob to one of three stored volumes (day, evening, night). The music construction
  machine controller is the same program with two stored volumes, a night switch-off of
  mixer, light and clutch, and a crank speed governor.

  On the AVR an \<^verbatim>\<open>int\<close> has 16 bits and a \<^verbatim>\<open>long\<close> 32. The schedule, servo and
  counter variables are modelled as \<^typ>\<open>int\<close>: the code only ever moves them inside
  small ranges (minutes are decremented while positive, the servo position steps towards
  a target, the counters are reset before they reach 52), so no 16-bit operation of these
  functions wraps. The crank times come from \<^verbatim>\<open>millis()\<close>, which does wrap, and are
  32-bit words.
\<close>

datatype program = TBC | MCMC

subsection \<open>Settings held in RAM\<close>

record config =
  day_hour :: int
  day_minute :: int
  day_volume :: int
  evening_hour :: int
  evening_minute :: int
  evening_volume :: int
  night_hour :: int
  night_minute :: int
  night_volume :: int
  off_delay :: int
  rpm_thresh :: int

subsection \<open>set\_volume\_to\_current\_time\<close>

text \<open>
  \<open>volume\<close> and \<open>match_time\<close> are globals of the sketch; \<open>scan_hour\<close> and
  \<open>scan_minute\<close> are the locals of the scan. \<open>match_time\<close> is 0 while nothing is
  found, 1 for day, 2 for evening and 3 for night.
\<close>

record matcher =
  volume :: int
  match_time :: int
  scan_hour :: int
  scan_minute :: int

definition check_day :: "config \<Rightarrow> matcher \<Rightarrow> matcher" where
  "check_day c s =
     (if scan_hour s = day_hour c \<and> scan_minute s = day_minute c
      then s\<lparr>volume := day_volume c, match_time := 1\<rparr> else s)"

definition check_evening :: "config \<Rightarrow> matcher \<Rightarrow> matcher" where
  "check_evening c s =
     (if scan_hour s = evening_hour c \<and> scan_minute s = evening_minute c
      then s\<lparr>volume := evening_volume c, match_time := 2\<rparr> else s)"

text \<open>The night test is where the sketches differ: only the first one stores a volume.\<close>

definition check_night :: "program \<Rightarrow> config \<Rightarrow> matcher \<Rightarrow> matcher" where
  "check_night p c s =
     (if scan_hour s = night_hour c \<and> scan_minute s = night_minute c
      then (case p of
              TBC \<Rightarrow> s\<lparr>volume := night_volume c, match_time := 3\<rparr>
            | MCMC \<Rightarrow> s\<lparr>match_time := 3\<rparr>)
      else s)"

definition step_back :: "matcher \<Rightarrow> matcher" where
  "step_back s =
     (if 0 < scan_minute s then s\<lparr>scan_minute := scan_minute s - 1\<rparr>
      else if 0 < scan_hour s then s\<lparr>scan_minute := 59, scan_hour := scan_hour s - 1\<rparr>
      else s\<lparr>scan_minute := 59, scan_hour := 23\<rparr>)"

definition scan_body :: "program \<Rightarrow> config \<Rightarrow> matcher \<Rightarrow> matcher" where
  "scan_body p c s = step_back (check_night p c (check_evening c (check_day c s)))"

text \<open>
  The loop \<^verbatim>\<open>while (!match_time) { ... }\<close> has no bound in the source. The model
  counts the executions of the body: \<open>scan_loop n\<close> is \<open>None\<close> when the loop is still
  running after \<open>n\<close> of them.
\<close>

fun scan_loop :: "nat \<Rightarrow> program \<Rightarrow> config \<Rightarrow> matcher \<Rightarrow> matcher option" where
  "scan_loop 0 p c s = (if match_time s \<noteq> 0 then Some s else None)"
| "scan_loop (Suc n) p c s =
     (if match_time s \<noteq> 0 then Some s else scan_loop n p c (scan_body p c s))"

text \<open>\<open>now_hour\<close> and \<open>now_minute\<close> are what the clock chip returns.\<close>

definition set_volume_to_current_time ::
  "nat \<Rightarrow> program \<Rightarrow> config \<Rightarrow> int \<Rightarrow> int \<Rightarrow> matcher \<Rightarrow> matcher option" where
  "set_volume_to_current_time fuel p c now_hour now_minute s =
     scan_loop fuel p c (s\<lparr>scan_minute := now_minute, scan_hour := now_hour, match_time := 0\<rparr>)"

text \<open>The schedule of the examples: day 08:00, evening 18:00, night 23:00.\<close>

definition example_config :: config where
  "example_config =
     \<lparr>day_hour = 8, day_minute = 0, day_volume = 80,
      evening_hour = 18, evening_minute = 0, evening_volume = 40,
      night_hour = 23, night_minute = 0, night_volume = 10,
      off_delay = 3, rpm_thresh = 200\<rparr>"

definition example_times :: "config \<Rightarrow> config" where
  "example_times c =
     c\<lparr>day_hour := 8, day_minute := 0, evening_hour := 18, evening_minute := 0,
       night_hour := 23, night_minute := 0\<rparr>"

text \<open>
  Only the day entry set, to 10:01; the other entries read 255 as from an erased EEPROM.
\<close>

definition late_day_config :: config where
  "late_day_config =
     \<lparr>day_hour = 10, day_minute = 1, day_volume = 80,
      evening_hour = 255, evening_minute = 255, evening_volume = 255,
      night_hour = 255, night_minute = 255, night_volume = 255,
      off_delay = 255, rpm_thresh = 255\<rparr>"

text \<open>All three entries at 08:00.\<close>

definition tie_config :: config where
  "tie_config =
     \<lparr>day_hour = 8, day_minute = 0, day_volume = 80,
      evening_hour = 8, evening_minute = 0, evening_volume = 40,
      night_hour = 8, night_minute = 0, night_volume = 10,
      off_delay = 3, rpm_thresh = 200\<rparr>"

text \<open>Day and night both at 08:00, evening at 18:00.\<close>

definition shared_night_config :: config where
  "shared_night_config =
     \<lparr>day_hour = 8, day_minute = 0, day_volume = 80,
      evening_hour = 18, evening_minute = 0, evening_volume = 40,
      night_hour = 8, night_minute = 0, night_volume = 0,
      off_delay = 3, rpm_thresh = 200\<rparr>"

definition boot_matcher :: matcher where
  "boot_matcher = \<lparr>volume = 0, match_time = 0, scan_hour = 0, scan_minute = 0\<rparr>"


text \<open>
  Proof devices for the scan: a valid clock reading, its minute of the day, and the number
  of backward steps from minute \<open>t\<close> to minute \<open>e\<close> of the day.
\<close>

definition valid_time :: "int \<Rightarrow> int \<Rightarrow> bool" where
  "valid_time h m = (0 \<le> h \<and> h < 24 \<and> 0 \<le> m \<and> m < 60)"

definition minute_of_day :: "matcher \<Rightarrow> int" where
  "minute_of_day s = scan_hour s * 60 + scan_minute s"

definition back_dist :: "int \<Rightarrow> int \<Rightarrow> nat" where
  "back_dist t e = nat (if e \<le> t then t - e else t + 1440 - e)"

subsection \<open>smooth\_servo\<close>

text \<open>
  \<open>attached\<close> is the state of the servo object (\<^verbatim>\<open>myservo.attach(6)\<close> sets it,
  \<^verbatim>\<open>myservo.detach()\<close> clears it) and \<open>servo_angle\<close> the last angle written to it.
\<close>

record servo =
  p_desired_servo_pos :: int
  desired_servo_pos :: int
  servo_pos :: int
  detach_timeout :: int
  attached :: bool
  servo_angle :: int

text \<open>C division truncates towards zero.\<close>

definition tdiv :: "int \<Rightarrow> int \<Rightarrow> int" where
  "tdiv a b = sgn a * sgn b * (\<bar>a\<bar> div \<bar>b\<bar>)"

text \<open>
  Modelled from the spec: the Arduino core's \<^verbatim>\<open>map\<close> is not part of the repository;
  the spec calls it a fixed linear transform of the position onto the servo's range. This
  is the core's formula, in \<^verbatim>\<open>long\<close> arithmetic that cannot overflow here.
\<close>

definition arduino_map :: "int \<Rightarrow> int \<Rightarrow> int \<Rightarrow> int \<Rightarrow> int \<Rightarrow> int" where
  "arduino_map x in_min in_max out_min out_max =
     tdiv ((x - in_min) * (out_max - out_min)) (in_max - in_min) + out_min"

definition retarget :: "servo \<Rightarrow> servo" where
  "retarget s =
     (if desired_servo_pos s \<noteq> p_desired_servo_pos s
      then s\<lparr>attached := True, p_desired_servo_pos := desired_servo_pos s, detach_timeout := 0\<rparr>
      else s)"

definition move_servo :: "int \<Rightarrow> servo \<Rightarrow> servo" where
  "move_servo direct_access s =
     (if desired_servo_pos s \<noteq> servo_pos s then
        (let s1 = (if servo_pos s < desired_servo_pos s
                   then s\<lparr>servo_pos := servo_pos s + 1\<rparr> else s);
             s2 = (if desired_servo_pos s1 < servo_pos s1
                   then s1\<lparr>servo_pos := servo_pos s1 - 1\<rparr> else s1);
             s3 = (if direct_access = 1
                   then s2\<lparr>servo_pos := desired_servo_pos s2\<rparr> else s2);
             s4 = (if desired_servo_pos s3 = servo_pos s3
                   then s3\<lparr>detach_timeout := detach_timeout s3 + 1\<rparr> else s3)
         in s4\<lparr>servo_angle := arduino_map (servo_pos s4) 0 100 170 28\<rparr>)
      else s)"

definition count_idle :: "servo \<Rightarrow> servo" where
  "count_idle s =
     (if desired_servo_pos s = servo_pos s \<and> detach_timeout s < 51
      then s\<lparr>detach_timeout := detach_timeout s + 1\<rparr> else s)"

definition auto_detach :: "servo \<Rightarrow> servo" where
  "auto_detach s = (if detach_timeout s = 50 then s\<lparr>attached := False\<rparr> else s)"

definition smooth_servo :: "int \<Rightarrow> int \<Rightarrow> servo \<Rightarrow> servo" where
  "smooth_servo destination direct_access s =
     auto_detach (count_idle (move_servo direct_access
       (retarget (s\<lparr>desired_servo_pos := destination\<rparr>))))"

text \<open>\<open>n\<close> passes of the main loop with the same target and access mode.\<close>

fun servo_run :: "nat \<Rightarrow> int \<Rightarrow> int \<Rightarrow> servo \<Rightarrow> servo" where
  "servo_run 0 t da s = s"
| "servo_run (Suc n) t da s = servo_run n t da (smooth_servo t da s)"

text \<open>The globals are zero when the sketch starts, and the servo is not attached.\<close>

definition boot_servo :: servo where
  "boot_servo =
     \<lparr>p_desired_servo_pos = 0, desired_servo_pos = 0, servo_pos = 0, detach_timeout = 0,
      attached = False, servo_angle = 0\<rparr>"

subsection \<open>measure\_crank\_speed and auto\_off\_at\_night\<close>

text \<open>
  The globals of the crank governor, the three output pins (\<open>clutch\<close> is pin 10,
  \<open>True\<close> for HIGH, that is mechanism on) and \<open>waited_ms\<close>, the time spent so far in
  the \<^verbatim>\<open>delay(1000)\<close> calls of the switch-off.
\<close>

record governor =
  rotation :: int
  rotation_trigger :: int
  crank_time :: "32 word"
  p_crank_time :: "32 word"
  ms_per_rotation :: "32 word"
  crank_speed_limit_count :: int
  clutch :: bool
  mixer :: bool
  light :: bool
  waited_ms :: nat

text \<open>
  \<open>closed\<close> is \<^verbatim>\<open>!ROTATION_SWITCH\<close>: pin 9 reads LOW. What the functions print
  on the serial line and the display is left out.
\<close>

definition detect_rotation :: "bool \<Rightarrow> governor \<Rightarrow> governor" where
  "detect_rotation closed s =
     (let s0 = s\<lparr>rotation_trigger := 0\<rparr>
      in if closed
         then (if rotation s0 = 0 then s0\<lparr>rotation := 1, rotation_trigger := 1\<rparr> else s0)
         else s0\<lparr>rotation := 0\<rparr>)"

text \<open>
  \<open>now\<close> is the value of \<^verbatim>\<open>millis()\<close>. The interval is a \<^verbatim>\<open>long\<close>; the threshold
  is promoted to \<^verbatim>\<open>long\<close> for the signed comparison.
\<close>

definition measure_turn :: "config \<Rightarrow> 32 word \<Rightarrow> governor \<Rightarrow> governor" where
  "measure_turn c now s =
     (if rotation_trigger s = 1 then
        (let s1 = s\<lparr>p_crank_time := crank_time s\<rparr>;
             s2 = s1\<lparr>crank_time := now\<rparr>;
             s3 = s2\<lparr>ms_per_rotation := crank_time s2 - p_crank_time s2\<rparr>
         in if sint (ms_per_rotation s3) < rpm_thresh c
            then s3\<lparr>crank_speed_limit_count := crank_speed_limit_count s3 + 1\<rparr>
            else s3\<lparr>crank_speed_limit_count := 0\<rparr>)
      else s)"

text \<open>\<^verbatim>\<open>for (int i = off_delay; i > 0; i--) { ...; delay(1000); }\<close>\<close>

function wait_seconds :: "int \<Rightarrow> governor \<Rightarrow> governor" where
  "wait_seconds i s =
     (if 0 < i then wait_seconds (i - 1) (s\<lparr>waited_ms := waited_ms s + 1000\<rparr>) else s)"
  by pat_completeness auto
termination
  by (relation "measure (\<lambda>(i, s). nat i)") auto

declare wait_seconds.simps [simp del]

definition switch_off :: "config \<Rightarrow> governor \<Rightarrow> governor" where
  "switch_off c s =
     (if 5 \<le> crank_speed_limit_count s
      then (wait_seconds (off_delay c) (s\<lparr>clutch := False\<rparr>))\<lparr>crank_speed_limit_count := 0\<rparr>
      else s)"

definition measure_crank_speed :: "config \<Rightarrow> bool \<Rightarrow> 32 word \<Rightarrow> governor \<Rightarrow> governor" where
  "measure_crank_speed c closed now s =
     switch_off c (measure_turn c now (detect_rotation closed s))"

text \<open>A run of the governor over the samples of successive passes of the main loop.\<close>

fun crank_run :: "config \<Rightarrow> (bool \<times> 32 word) list \<Rightarrow> governor \<Rightarrow> governor" where
  "crank_run c [] s = s"
| "crank_run c ((closed, now) # ticks) s = crank_run c ticks (measure_crank_speed c closed now s)"

definition auto_off_at_night :: "int \<Rightarrow> governor \<Rightarrow> governor" where
  "auto_off_at_night mt s =
     (let s1 = (if mt = 3 then s\<lparr>clutch := False, mixer := False, light := False\<rparr> else s)
      in if mt = 1 \<or> mt = 2 then s1\<lparr>clutch := True, mixer := True, light := True\<rparr> else s1)"

text \<open>
  Samples of a crank turned five times too fast for a threshold of 200 ms, after a first
  slow turn: the switch closes at 1000, 1100, 1200, 1300 and 1400 ms and is open in
  between.
\<close>

definition four_fast_turns :: "(bool \<times> 32 word) list" where
  "four_fast_turns =
     [(True, 1000), (False, 1050), (True, 1100), (False, 1150), (True, 1200), (False, 1250),
      (True, 1300), (False, 1350), (True, 1400), (False, 1450)]"

text \<open>After \<^verbatim>\<open>setup()\<close>: globals zero, mixer and light switched on.\<close>

definition boot_governor :: governor where
  "boot_governor =
     \<lparr>rotation = 0, rotation_trigger = 0, crank_time = 0, p_crank_time = 0,
      ms_per_rotation = 0, crank_speed_limit_count = 0,
      clutch = False, mixer = True, light = True, waited_ms = 0\<rparr>"

text \<open>
  The end of \<^verbatim>\<open>loop()\<close> of the machine controller: the schedule, the servo step with
  the scheduled volume, the night switch, the governor.
\<close>

definition loop_tail ::
  "nat \<Rightarrow> config \<Rightarrow> int \<Rightarrow> int \<Rightarrow> bool \<Rightarrow> 32 word \<Rightarrow>
     matcher \<times> servo \<times> governor \<Rightarrow> (matcher \<times> servo \<times> governor) option" where
  "loop_tail fuel c now_hour now_minute closed now st =
     (case st of (ms, sv, g) \<Rightarrow>
        (case set_volume_to_current_time fuel MCMC c now_hour now_minute ms of
           None \<Rightarrow> None
         | Some ms' \<Rightarrow>
             Some (ms', smooth_servo (volume ms') 0 sv,
                   measure_crank_speed c closed now (auto_off_at_night (match_time ms') g))))"

subsection \<open>The settings in the EEPROM\<close>

text \<open>
  Modelled from the spec: the EEPROM library is not part of the repository. The spec
  describes the store as \<open>read(key) -> byte\<close> and \<open>write(key, byte)\<close> with 8-bit
  values; an \<^verbatim>\<open>int\<close> passed to \<open>write\<close> is converted to a byte, which keeps its low
  eight bits, and a byte read is a value from 0 to 255.
\<close>

type_synonym eeprom = "nat \<Rightarrow> 8 word"

definition EEPROM_write :: "eeprom \<Rightarrow> nat \<Rightarrow> int \<Rightarrow> eeprom" where
  "EEPROM_write e a v = e(a := word_of_int v)"

definition EEPROM_read :: "eeprom \<Rightarrow> nat \<Rightarrow> int" where
  "EEPROM_read e a = uint (e a)"

definition DAY_HOUR :: nat where "DAY_HOUR = 0"
definition DAY_MINUTE :: nat where "DAY_MINUTE = 2"
definition DAY_VOLUME :: nat where "DAY_VOLUME = 4"
definition EVENING_HOUR :: nat where "EVENING_HOUR = 6"
definition EVENING_MINUTE :: nat where "EVENING_MINUTE = 8"
definition EVENING_VOLUME :: nat where "EVENING_VOLUME = 10"
definition NIGHT_HOUR :: nat where "NIGHT_HOUR = 12"
definition NIGHT_MINUTE :: nat where "NIGHT_MINUTE = 14"
definition NIGHT_VOLUME :: nat where "NIGHT_VOLUME = 16"
definition OFF_DELAY :: nat where "OFF_DELAY = 16"
definition RPM_THRESH :: nat where "RPM_THRESH = 18"

text \<open>The reads of \<^verbatim>\<open>setup()\<close>; the last lines differ between the sketches.\<close>

definition setup_read :: "program \<Rightarrow> eeprom \<Rightarrow> config \<Rightarrow> config" where
  "setup_read p e c =
     (let c1 = c\<lparr>day_hour := EEPROM_read e DAY_HOUR,
                 day_minute := EEPROM_read e DAY_MINUTE,
                 day_volume := EEPROM_read e DAY_VOLUME,
                 evening_hour := EEPROM_read e EVENING_HOUR,
                 evening_minute := EEPROM_read e EVENING_MINUTE,
                 evening_volume := EEPROM_read e EVENING_VOLUME,
                 night_hour := EEPROM_read e NIGHT_HOUR,
                 night_minute := EEPROM_read e NIGHT_MINUTE\<rparr>
      in case p of
           TBC \<Rightarrow> c1\<lparr>night_volume := EEPROM_read e NIGHT_VOLUME\<rparr>
         | MCMC \<Rightarrow> c1\<lparr>off_delay := EEPROM_read e OFF_DELAY,
                       rpm_thresh := EEPROM_read e RPM_THRESH\<rparr>)"

text \<open>The writes that end the editing functions of the menu.\<close>

definition save_volume_day :: "config \<Rightarrow> eeprom \<Rightarrow> eeprom" where
  "save_volume_day c e = EEPROM_write e DAY_VOLUME (day_volume c)"

definition save_volume_evening :: "config \<Rightarrow> eeprom \<Rightarrow> eeprom" where
  "save_volume_evening c e = EEPROM_write e EVENING_VOLUME (evening_volume c)"

definition save_volume_night :: "config \<Rightarrow> eeprom \<Rightarrow> eeprom" where
  "save_volume_night c e = EEPROM_write e NIGHT_VOLUME (night_volume c)"

definition save_trigger_times :: "config \<Rightarrow> eeprom \<Rightarrow> eeprom" where
  "save_trigger_times c e =
     (let e1 = EEPROM_write e DAY_HOUR (day_hour c);
          e2 = EEPROM_write e1 DAY_MINUTE (day_minute c);
          e3 = EEPROM_write e2 EVENING_HOUR (evening_hour c);
          e4 = EEPROM_write e3 EVENING_MINUTE (evening_minute c);
          e5 = EEPROM_write e4 NIGHT_HOUR (night_hour c)
      in EEPROM_write e5 NIGHT_MINUTE (night_minute c))"

text \<open>
  The two editing loops of \<^verbatim>\<open>set_crank_speed\<close> leave the last mapped readings of
  the potentiometer (0 to 1023) in the settings: the threshold from 100 to 2000, the
  switch-off time from 1 to 999.
\<close>

definition edit_crank_speed :: "int \<Rightarrow> int \<Rightarrow> config \<Rightarrow> config" where
  "edit_crank_speed poti_thresh poti_delay c =
     c\<lparr>rpm_thresh := arduino_map poti_thresh 1023 0 100 2000,
       off_delay := arduino_map poti_delay 1023 0 1 999\<rparr>"

definition save_crank_speed :: "config \<Rightarrow> eeprom \<Rightarrow> eeprom" where
  "save_crank_speed c e =
     EEPROM_write (EEPROM_write e OFF_DELAY (off_delay c)) RPM_THRESH (rpm_thresh c)"


section \<open>The schedule matcher\<close>

subsection \<open>One pass of the scan\<close>

lemma scan_loop_matched: "match_time s \<noteq> 0 \<Longrightarrow> scan_loop n p c s = Some s"
  by (cases n) simp_all

lemma check_day_fields:
  "scan_hour (check_day c s) = scan_hour s"
  "scan_minute (check_day c s) = scan_minute s"
  "match_time (check_day c s) =
     (if scan_hour s = day_hour c \<and> scan_minute s = day_minute c then 1 else match_time s)"
  "volume (check_day c s) =
     (if scan_hour s = day_hour c \<and> scan_minute s = day_minute c then day_volume c else volume s)"
  by (simp_all add: check_day_def)

lemma check_evening_fields:
  "scan_hour (check_evening c s) = scan_hour s"
  "scan_minute (check_evening c s) = scan_minute s"
  "match_time (check_evening c s) =
     (if scan_hour s = evening_hour c \<and> scan_minute s = evening_minute c then 2 else match_time s)"
  "volume (check_evening c s) =
     (if scan_hour s = evening_hour c \<and> scan_minute s = evening_minute c
      then evening_volume c else volume s)"
  by (simp_all add: check_evening_def)

lemma check_night_fields:
  "scan_hour (check_night p c s) = scan_hour s"
  "scan_minute (check_night p c s) = scan_minute s"
  "match_time (check_night p c s) =
     (if scan_hour s = night_hour c \<and> scan_minute s = night_minute c then 3 else match_time s)"
  "volume (check_night TBC c s) =
     (if scan_hour s = night_hour c \<and> scan_minute s = night_minute c
      then night_volume c else volume s)"
  "volume (check_night MCMC c s) = volume s"
  by (cases p; simp add: check_night_def)+

lemma step_back_fields:
  "match_time (step_back s) = match_time s"
  "volume (step_back s) = volume s"
  by (simp_all add: step_back_def)

lemma scan_body_pos:
  "scan_hour (scan_body p c s) = scan_hour (step_back s)"
  "scan_minute (scan_body p c s) = scan_minute (step_back s)"
  by (simp_all add: scan_body_def step_back_def check_night_fields check_evening_fields
      check_day_fields)

lemma scan_body_match:
  "match_time (scan_body p c s) =
     (if scan_hour s = night_hour c \<and> scan_minute s = night_minute c then 3
      else if scan_hour s = evening_hour c \<and> scan_minute s = evening_minute c then 2
      else if scan_hour s = day_hour c \<and> scan_minute s = day_minute c then 1
      else match_time s)"
  by (simp only: scan_body_def step_back_fields check_night_fields check_evening_fields
      check_day_fields)

lemma scan_body_volume_TBC:
  "volume (scan_body TBC c s) =
     (if scan_hour s = night_hour c \<and> scan_minute s = night_minute c then night_volume c
      else if scan_hour s = evening_hour c \<and> scan_minute s = evening_minute c then evening_volume c
      else if scan_hour s = day_hour c \<and> scan_minute s = day_minute c then day_volume c
      else volume s)"
  by (simp only: scan_body_def step_back_fields check_night_fields check_evening_fields
      check_day_fields)

lemma scan_body_volume_MCMC:
  "volume (scan_body MCMC c s) =
     (if scan_hour s = evening_hour c \<and> scan_minute s = evening_minute c then evening_volume c
      else if scan_hour s = day_hour c \<and> scan_minute s = day_minute c then day_volume c
      else volume s)"
  by (simp only: scan_body_def step_back_fields check_night_fields check_evening_fields
      check_day_fields)

lemma step_back_valid:
  "valid_time (scan_hour s) (scan_minute s) \<Longrightarrow>
   valid_time (scan_hour (step_back s)) (scan_minute (step_back s))"
  by (auto simp: valid_time_def step_back_def)

lemma step_back_minute_of_day:
  "valid_time (scan_hour s) (scan_minute s) \<Longrightarrow>
   minute_of_day (step_back s) = (if minute_of_day s = 0 then 1439 else minute_of_day s - 1)"
  by (auto simp: valid_time_def step_back_def minute_of_day_def)

subsection \<open>Minutes of the day\<close>

lemma hm_inj:
  fixes h m eh em :: int
  assumes "0 \<le> m" "m < 60" "0 \<le> em" "em < 60" "h * 60 + m = eh * 60 + em"
  shows "h = eh \<and> m = em"
proof -
  have "(h * 60 + m) div 60 = h" "(h * 60 + m) mod 60 = m"
    using assms(1,2) by simp_all
  moreover have "(eh * 60 + em) div 60 = eh" "(eh * 60 + em) mod 60 = em"
    using assms(3,4) by simp_all
  ultimately show ?thesis using assms(5) by metis
qed

lemma minute_of_day_inj:
  "valid_time (scan_hour s) (scan_minute s) \<Longrightarrow> valid_time eh em \<Longrightarrow>
   minute_of_day s = eh * 60 + em \<Longrightarrow> scan_hour s = eh \<and> scan_minute s = em"
  unfolding valid_time_def minute_of_day_def by (rule hm_inj) simp_all

lemma minute_of_day_range:
  "valid_time h m \<Longrightarrow> 0 \<le> h * 60 + m \<and> h * 60 + m < 1440"
  unfolding valid_time_def by linarith

lemma back_dist_less: "0 \<le> t \<Longrightarrow> t < 1440 \<Longrightarrow> 0 \<le> e \<Longrightarrow> e < 1440 \<Longrightarrow> back_dist t e < 1440"
  by (auto simp: back_dist_def)

lemma back_dist_step:
  "0 \<le> t \<Longrightarrow> t < 1440 \<Longrightarrow> 0 \<le> e \<Longrightarrow> e < 1440 \<Longrightarrow> t \<noteq> e \<Longrightarrow>
   Suc (back_dist (if t = 0 then 1439 else t - 1) e) = back_dist t e"
  by (auto simp: back_dist_def)

subsection \<open>The scan on the example schedule\<close>

lemma scan_loop_numeral:
  "scan_loop (numeral k) p c s =
     (if match_time s \<noteq> 0 then Some s else scan_loop (pred_numeral k) p c (scan_body p c s))"
  by (simp add: numeral_eq_Suc)

lemma scan_body_example:
  "scan_body p (example_times c) \<lparr>volume = v, match_time = 0, scan_hour = h, scan_minute = m\<rparr> =
     (if h = 23 \<and> m = 0 then
        \<lparr>volume = (case p of TBC \<Rightarrow> night_volume c | MCMC \<Rightarrow> v), match_time = 3,
         scan_hour = 22, scan_minute = 59\<rparr>
      else if h = 18 \<and> m = 0 then
        \<lparr>volume = evening_volume c, match_time = 2, scan_hour = 17, scan_minute = 59\<rparr>
      else if h = 8 \<and> m = 0 then
        \<lparr>volume = day_volume c, match_time = 1, scan_hour = 7, scan_minute = 59\<rparr>
      else if 0 < m then \<lparr>volume = v, match_time = 0, scan_hour = h, scan_minute = m - 1\<rparr>
      else if 0 < h then \<lparr>volume = v, match_time = 0, scan_hour = h - 1, scan_minute = 59\<rparr>
      else \<lparr>volume = v, match_time = 0, scan_hour = 23, scan_minute = 59\<rparr>)"
  by (cases p) (auto simp: scan_body_def example_times_def check_day_def check_evening_def
      check_night_def step_back_def)

lemma example_evening:
  "set_volume_to_current_time 1440 p (example_times c) 20 15 \<lparr>volume = v, match_time = mt, scan_hour = sh, scan_minute = sm\<rparr>
     = Some \<lparr>volume = evening_volume c, match_time = 2, scan_hour = 17, scan_minute = 59\<rparr>"
  by (simp add: set_volume_to_current_time_def scan_loop_numeral scan_body_example)

lemma example_night:
  "set_volume_to_current_time 1440 p (example_times c) 7 59 \<lparr>volume = v, match_time = mt, scan_hour = sh, scan_minute = sm\<rparr>
     = Some \<lparr>volume = (case p of TBC \<Rightarrow> night_volume c | MCMC \<Rightarrow> v), match_time = 3,
         scan_hour = 22, scan_minute = 59\<rparr>"
  by (simp add: set_volume_to_current_time_def scan_loop_numeral scan_body_example)

text \<open>
  C3. With the entries day 08:00, evening 18:00 and night 23:00, whatever the stored
  volumes and the state before the call, a query at 20:15 gives the period evening
  (\<open>match_time\<close> 2), the most recent trigger, and a query at 07:59 gives night
  (\<open>match_time\<close> 3), the scan having wrapped over midnight to 23:00. Both sketches
  agree, and 1440 passes of the loop body are enough.
\<close>

theorem schedule_examples:
  "map_option match_time
     (set_volume_to_current_time 1440 p (example_times c) 20 15 s) = Some 2 \<and>
   map_option match_time
     (set_volume_to_current_time 1440 p (example_times c) 7 59 s) = Some 3"
  by (cases s) (simp add: example_evening example_night)

subsection \<open>The scan ends\<close>

lemma scan_body_minute_of_day:
  "valid_time (scan_hour s) (scan_minute s) \<Longrightarrow>
   minute_of_day (scan_body p c s) = (if minute_of_day s = 0 then 1439 else minute_of_day s - 1)"
  using step_back_minute_of_day [of s] by (simp add: minute_of_day_def scan_body_pos)

lemma scan_body_valid:
  "valid_time (scan_hour s) (scan_minute s) \<Longrightarrow>
   valid_time (scan_hour (scan_body p c s)) (scan_minute (scan_body p c s))"
  by (simp add: scan_body_pos step_back_valid)

lemma scan_finds:
  assumes e: "valid_time eh em"
    and entry: "(eh = day_hour c \<and> em = day_minute c) \<or>
                (eh = evening_hour c \<and> em = evening_minute c) \<or>
                (eh = night_hour c \<and> em = night_minute c)"
  shows "match_time s = 0 \<Longrightarrow> valid_time (scan_hour s) (scan_minute s) \<Longrightarrow>
         back_dist (minute_of_day s) (eh * 60 + em) < n \<Longrightarrow>
         \<exists>s'. scan_loop n p c s = Some s' \<and> match_time s' \<in> {1, 2, 3}"
proof (induction n arbitrary: s)
  case 0
  then show ?case by simp
next
  case (Suc n)
  let ?b = "scan_body p c s"
  have loop: "scan_loop (Suc n) p c s = scan_loop n p c ?b"
    using Suc.prems(1) by simp
  show ?case
  proof (cases "match_time ?b = 0")
    case False
    have "match_time ?b \<in> {1, 2, 3}"
      using False Suc.prems(1) by (simp add: scan_body_match split: if_splits)
    with loop scan_loop_matched [OF False] show ?thesis by simp
  next
    case True
    have "\<not> (scan_hour s = eh \<and> scan_minute s = em)"
      using True entry by (auto simp: scan_body_match split: if_splits)
    then have ne: "minute_of_day s \<noteq> eh * 60 + em"
      using minute_of_day_inj [OF Suc.prems(2) e] by blast
    have rs: "0 \<le> minute_of_day s \<and> minute_of_day s < 1440"
      using minute_of_day_range [OF Suc.prems(2)] by (simp add: minute_of_day_def)
    have re: "0 \<le> eh * 60 + em \<and> eh * 60 + em < 1440"
      using minute_of_day_range [OF e] .
    have "Suc (back_dist (minute_of_day ?b) (eh * 60 + em)) = back_dist (minute_of_day s) (eh * 60 + em)"
      unfolding scan_body_minute_of_day [OF Suc.prems(2)]
      by (rule back_dist_step) (use rs re ne in simp_all)
    then have "back_dist (minute_of_day ?b) (eh * 60 + em) < n"
      using Suc.prems(3) by linarith
    from Suc.IH [OF True scan_body_valid [OF Suc.prems(2)] this] loop
    show ?thesis by simp
  qed
qed

text \<open>
  C4. For a valid clock reading (hour 0 to 23, minute 0 to 59) and settings in which at
  least one of the three entries is a valid time, the backward scan stops within 1440
  passes of the loop body, and the period it leaves in \<open>match_time\<close> is day (1),
  evening (2) or night (3). This holds for both sketches.
\<close>

theorem scan_terminates:
  assumes now: "valid_time now_hour now_minute"
    and some: "valid_time (day_hour c) (day_minute c) \<or>
               valid_time (evening_hour c) (evening_minute c) \<or>
               valid_time (night_hour c) (night_minute c)"
  shows "\<exists>s'. set_volume_to_current_time 1440 p c now_hour now_minute s = Some s' \<and>
              match_time s' \<in> {1, 2, 3}"
proof -
  let ?s = "s\<lparr>scan_minute := now_minute, scan_hour := now_hour, match_time := 0\<rparr>"
  obtain eh em where e: "valid_time eh em"
    and entry: "(eh = day_hour c \<and> em = day_minute c) \<or>
                (eh = evening_hour c \<and> em = evening_minute c) \<or>
                (eh = night_hour c \<and> em = night_minute c)"
    using some by blast
  have v: "valid_time (scan_hour ?s) (scan_minute ?s)"
    using now by simp
  have "0 \<le> minute_of_day ?s \<and> minute_of_day ?s < 1440"
    using minute_of_day_range [OF now] by (simp add: minute_of_day_def)
  then have "back_dist (minute_of_day ?s) (eh * 60 + em) < 1440"
    using minute_of_day_range [OF e] by (simp add: back_dist_less)
  from scan_finds [OF e entry _ v this, of p]
  show ?thesis by (simp add: set_volume_to_current_time_def)
qed

theorem scan_terminates_witness:
  "valid_time 10 0 \<and>
   valid_time (day_hour late_day_config) (day_minute late_day_config) \<and>
   (\<exists>s'. set_volume_to_current_time 1440 TBC late_day_config 10 0 boot_matcher = Some s' \<and>
         match_time s' \<in> {1, 2, 3})"
  using scan_terminates [of 10 0 late_day_config TBC boot_matcher]
  by (simp add: valid_time_def late_day_config_def)

text \<open>
  The bound is reached: with the only entry one minute ahead of the clock, 1439 passes
  do not find it. With no valid entry at all the loop never ends.
\<close>

lemma scan_needs_1440:
  "set_volume_to_current_time 1439 TBC late_day_config 10 0 boot_matcher = None \<and>
   set_volume_to_current_time 1440 TBC late_day_config 10 0 boot_matcher =
     Some \<lparr>volume = 80, match_time = 1, scan_hour = 10, scan_minute = 0\<rparr>"
  by code_simp

subsection \<open>Entries that share a minute\<close>

lemma scan_loop_winner:
  "scan_loop n TBC c s = Some s' \<Longrightarrow> match_time s = 0 \<Longrightarrow>
   \<exists>u. match_time u = 0 \<and> s' = scan_body TBC c u \<and>
     (if scan_hour u = night_hour c \<and> scan_minute u = night_minute c
      then match_time s' = 3 \<and> volume s' = night_volume c
      else if scan_hour u = evening_hour c \<and> scan_minute u = evening_minute c
      then match_time s' = 2 \<and> volume s' = evening_volume c
      else scan_hour u = day_hour c \<and> scan_minute u = day_minute c \<and>
           match_time s' = 1 \<and> volume s' = day_volume c)"
proof (induction n arbitrary: s)
  case 0
  then show ?case by simp
next
  case (Suc n)
  let ?b = "scan_body TBC c s"
  have loop: "scan_loop n TBC c ?b = Some s'"
    using Suc.prems by simp
  show ?case
  proof (cases "match_time ?b = 0")
    case True
    from Suc.IH [OF loop True] show ?thesis .
  next
    case False
    then have s': "s' = ?b"
      using loop scan_loop_matched [OF False, of n TBC c] by simp
    define N where "N \<longleftrightarrow> scan_hour s = night_hour c \<and> scan_minute s = night_minute c"
    define E where "E \<longleftrightarrow> scan_hour s = evening_hour c \<and> scan_minute s = evening_minute c"
    define D where "D \<longleftrightarrow> scan_hour s = day_hour c \<and> scan_minute s = day_minute c"
    have m: "match_time ?b = (if N then 3 else if E then 2 else if D then 1 else match_time s)"
      unfolding N_def E_def D_def by (rule scan_body_match)
    have v: "volume ?b = (if N then night_volume c else if E then evening_volume c
                          else if D then day_volume c else volume s)"
      unfolding N_def E_def D_def by (rule scan_body_volume_TBC)
    have "if N then match_time ?b = 3 \<and> volume ?b = night_volume c
          else if E then match_time ?b = 2 \<and> volume ?b = evening_volume c
          else D \<and> match_time ?b = 1 \<and> volume ?b = day_volume c"
      using False Suc.prems(2) unfolding m v by (cases N; cases E; cases D; simp)
    then have "if scan_hour s = night_hour c \<and> scan_minute s = night_minute c
      then match_time ?b = 3 \<and> volume ?b = night_volume c
      else if scan_hour s = evening_hour c \<and> scan_minute s = evening_minute c
      then match_time ?b = 2 \<and> volume ?b = evening_volume c
      else scan_hour s = day_hour c \<and> scan_minute s = day_minute c \<and>
           match_time ?b = 1 \<and> volume ?b = day_volume c"
      unfolding N_def E_def D_def by (simp only: conj_assoc)
    with s' Suc.prems(2) show ?thesis by blast
  qed
qed

text \<open>
  C5. In the sketch with three volumes, the result of the scan is the loop body run at one
  scan minute, the matched one (the minute of the state \<open>u\<close>). If the night entry is at
  that minute, the period is night and the volume the night volume, whether or not the
  evening or day entry is there too; otherwise, if the evening entry is at that minute, the
  period is evening and the volume the evening volume, whether or not the day entry is
  there too; otherwise the day entry is at that minute and gives period and volume.
\<close>

theorem tie_last_checked_wins:
  assumes "set_volume_to_current_time n TBC c now_hour now_minute s = Some s'"
  shows "\<exists>u. match_time u = 0 \<and> s' = scan_body TBC c u \<and>
     (if scan_hour u = night_hour c \<and> scan_minute u = night_minute c
      then match_time s' = 3 \<and> volume s' = night_volume c
      else if scan_hour u = evening_hour c \<and> scan_minute u = evening_minute c
      then match_time s' = 2 \<and> volume s' = evening_volume c
      else scan_hour u = day_hour c \<and> scan_minute u = day_minute c \<and>
           match_time s' = 1 \<and> volume s' = day_volume c)"
  using assms unfolding set_volume_to_current_time_def
  by (rule scan_loop_winner) simp

theorem tie_last_checked_wins_witness:
  "set_volume_to_current_time 1440 TBC tie_config 8 10 boot_matcher =
     Some \<lparr>volume = 10, match_time = 3, scan_hour = 7, scan_minute = 59\<rparr> \<and>
   (\<exists>u. match_time u = 0 \<and>
        \<lparr>volume = 10, match_time = 3, scan_hour = 7, scan_minute = 59\<rparr> = scan_body TBC tie_config u \<and>
        scan_hour u = night_hour tie_config \<and> scan_minute u = night_minute tie_config \<and>
        scan_hour u = evening_hour tie_config \<and> scan_minute u = evening_minute tie_config \<and>
        scan_hour u = day_hour tie_config \<and> scan_minute u = day_minute tie_config)"
proof -
  have r: "set_volume_to_current_time 1440 TBC tie_config 8 10 boot_matcher =
     Some \<lparr>volume = 10, match_time = 3, scan_hour = 7, scan_minute = 59\<rparr>"
    by code_simp
  from tie_last_checked_wins [OF r] obtain u where u: "match_time u = 0"
    "\<lparr>volume = 10, match_time = 3, scan_hour = 7, scan_minute = 59\<rparr> = scan_body TBC tie_config u"
    "if scan_hour u = night_hour tie_config \<and> scan_minute u = night_minute tie_config
     then True
     else if scan_hour u = evening_hour tie_config \<and> scan_minute u = evening_minute tie_config
     then (3::int) = 2 else (3::int) = 1"
    by (auto split: if_splits)
  from u(3) have "scan_hour u = night_hour tie_config \<and> scan_minute u = night_minute tie_config"
    by (simp split: if_splits)
  then have "scan_hour u = 8 \<and> scan_minute u = 0"
    by (simp add: tie_config_def)
  with r u(1,2) show ?thesis
    by (auto simp: tie_config_def)
qed

subsection \<open>The night entry of the machine controller\<close>

lemma scan_loop_night_volume:
  "scan_loop n MCMC c s = Some s' \<Longrightarrow> match_time s = 0 \<Longrightarrow> match_time s' = 3 \<Longrightarrow>
   volume s' =
     (if night_hour c = evening_hour c \<and> night_minute c = evening_minute c then evening_volume c
      else if night_hour c = day_hour c \<and> night_minute c = day_minute c then day_volume c
      else volume s)"
proof (induction n arbitrary: s)
  case 0
  then show ?case by simp
next
  case (Suc n)
  let ?b = "scan_body MCMC c s"
  have loop: "scan_loop n MCMC c ?b = Some s'"
    using Suc.prems by simp
  show ?case
  proof (cases "match_time ?b = 0")
    case True
    define E where "E \<longleftrightarrow> scan_hour s = evening_hour c \<and> scan_minute s = evening_minute c"
    define D where "D \<longleftrightarrow> scan_hour s = day_hour c \<and> scan_minute s = day_minute c"
    have "match_time ?b =
            (if scan_hour s = night_hour c \<and> scan_minute s = night_minute c then 3
             else if E then 2 else if D then 1 else match_time s)"
      unfolding E_def D_def by (rule scan_body_match)
    with True have "\<not> E \<and> \<not> D"
      by (cases E; cases D; simp split: if_splits)
    moreover have "volume ?b = (if E then evening_volume c else if D then day_volume c else volume s)"
      unfolding E_def D_def by (rule scan_body_volume_MCMC)
    ultimately have keep: "volume ?b = volume s"
      by simp
    from Suc.IH [OF loop True Suc.prems(3)] show ?thesis
      unfolding keep .
  next
    case False
    then have s': "s' = ?b"
      using loop scan_loop_matched [OF False, of n MCMC c] by simp
    then have "scan_hour s = night_hour c \<and> scan_minute s = night_minute c"
      using Suc.prems(2,3) by (simp add: scan_body_match split: if_splits)
    then have at: "scan_hour s = night_hour c" "scan_minute s = night_minute c"
      by simp_all
    show ?thesis
      unfolding s' scan_body_volume_MCMC at by (rule refl)
  qed
qed


section \<open>The servo driver\<close>

subsection \<open>The four steps of a call\<close>

lemma retarget_fields:
  "desired_servo_pos (retarget s) = desired_servo_pos s"
  "p_desired_servo_pos (retarget s) = desired_servo_pos s"
  "servo_pos (retarget s) = servo_pos s"
  "detach_timeout (retarget s) =
     (if desired_servo_pos s \<noteq> p_desired_servo_pos s then 0 else detach_timeout s)"
  "attached (retarget s) = (desired_servo_pos s \<noteq> p_desired_servo_pos s \<or> attached s)"
  by (simp_all add: retarget_def)

lemma move_servo_fields:
  "desired_servo_pos (move_servo da s) = desired_servo_pos s"
  "p_desired_servo_pos (move_servo da s) = p_desired_servo_pos s"
  "attached (move_servo da s) = attached s"
  "servo_pos (move_servo da s) =
     (if servo_pos s = desired_servo_pos s then servo_pos s
      else if da = 1 then desired_servo_pos s
      else if servo_pos s < desired_servo_pos s then servo_pos s + 1 else servo_pos s - 1)"
  by (simp_all add: move_servo_def Let_def)

lemma move_servo_timeout:
  "detach_timeout (move_servo da s) =
     (if servo_pos s \<noteq> desired_servo_pos s \<and> servo_pos (move_servo da s) = desired_servo_pos s
      then detach_timeout s + 1 else detach_timeout s)"
  by (auto simp add: move_servo_def Let_def)

lemma count_idle_fields:
  "desired_servo_pos (count_idle s) = desired_servo_pos s"
  "p_desired_servo_pos (count_idle s) = p_desired_servo_pos s"
  "attached (count_idle s) = attached s"
  "servo_pos (count_idle s) = servo_pos s"
  "detach_timeout (count_idle s) =
     (if desired_servo_pos s = servo_pos s \<and> detach_timeout s < 51
      then detach_timeout s + 1 else detach_timeout s)"
  by (simp_all add: count_idle_def)

lemma auto_detach_fields:
  "desired_servo_pos (auto_detach s) = desired_servo_pos s"
  "p_desired_servo_pos (auto_detach s) = p_desired_servo_pos s"
  "servo_pos (auto_detach s) = servo_pos s"
  "detach_timeout (auto_detach s) = detach_timeout s"
  "attached (auto_detach s) = (detach_timeout s \<noteq> 50 \<and> attached s)"
  by (simp_all add: auto_detach_def)

lemma smooth_servo_targets:
  "desired_servo_pos (smooth_servo t da s) = t"
  "p_desired_servo_pos (smooth_servo t da s) = t"
  by (simp_all add: smooth_servo_def auto_detach_fields count_idle_fields move_servo_fields
      retarget_fields)

lemma smooth_servo_pos:
  "servo_pos (smooth_servo t da s) =
     (if servo_pos s = t then servo_pos s else if da = 1 then t
      else if servo_pos s < t then servo_pos s + 1 else servo_pos s - 1)"
  by (simp add: smooth_servo_def auto_detach_fields count_idle_fields move_servo_fields
      retarget_fields)

lemma smooth_servo_timeout:
  "detach_timeout (smooth_servo t da s) =
     (let d0 = (if t \<noteq> p_desired_servo_pos s then 0 else detach_timeout s);
          d1 = (if servo_pos s \<noteq> t \<and> servo_pos (smooth_servo t da s) = t then d0 + 1 else d0)
      in if servo_pos (smooth_servo t da s) = t \<and> d1 < 51 then d1 + 1 else d1)"
proof -
  let ?r = "retarget (s\<lparr>desired_servo_pos := t\<rparr>)"
  let ?m = "move_servo da ?r"
  have pos: "servo_pos (smooth_servo t da s) = servo_pos ?m"
    by (simp only: smooth_servo_def auto_detach_fields count_idle_fields)
  have r: "detach_timeout ?r = (if t \<noteq> p_desired_servo_pos s then 0 else detach_timeout s)"
    "servo_pos ?r = servo_pos s" "desired_servo_pos ?r = t"
    by (simp_all add: retarget_fields)
  have m: "detach_timeout ?m =
      (if servo_pos s \<noteq> t \<and> servo_pos ?m = t then detach_timeout ?r + 1 else detach_timeout ?r)"
    "desired_servo_pos ?m = t"
    by (simp_all only: move_servo_timeout move_servo_fields r)
  have "detach_timeout (smooth_servo t da s) =
      (if t = servo_pos ?m \<and> detach_timeout ?m < 51 then detach_timeout ?m + 1 else detach_timeout ?m)"
    by (simp only: smooth_servo_def auto_detach_fields count_idle_fields m)
  then show ?thesis
    unfolding pos m r Let_def by (simp only: eq_commute [of t])
qed

lemma smooth_servo_attached:
  "attached (smooth_servo t da s) =
     (detach_timeout (smooth_servo t da s) \<noteq> 50 \<and> (t \<noteq> p_desired_servo_pos s \<or> attached s))"
  by (simp add: smooth_servo_def auto_detach_fields count_idle_fields move_servo_fields
      retarget_fields)

lemma servo_run_Suc_end: "servo_run (Suc n) t da s = smooth_servo t da (servo_run n t da s)"
  by (induction n arbitrary: s) simp_all

lemma servo_run_add: "servo_run (m + n) t da s = servo_run n t da (servo_run m t da s)"
  by (induction m arbitrary: s) simp_all

lemma gradual_run_pos:
  "servo_pos (servo_run j t 0 s) =
     (if servo_pos s \<le> t then min (servo_pos s + int j) t else max (servo_pos s - int j) t)"
proof (induction j)
  case 0
  then show ?case by simp
next
  case (Suc j)
  show ?case
    unfolding servo_run_Suc_end smooth_servo_pos Suc.IH
    by (simp add: min_def max_def)
qed

lemma smooth_servo_closer:
  "\<bar>servo_pos (smooth_servo t da s) - t\<bar> \<le> \<bar>servo_pos s - t\<bar>"
  unfolding smooth_servo_pos by simp

lemma idle_step:
  assumes "p_desired_servo_pos s = t" "servo_pos s = t"
  shows "detach_timeout (smooth_servo t da s) =
           (if detach_timeout s < 51 then detach_timeout s + 1 else detach_timeout s)"
    and "servo_pos (smooth_servo t da s) = t"
    and "attached (smooth_servo t da s) =
           (attached s \<and> (if detach_timeout s < 51 then detach_timeout s + 1 else detach_timeout s) \<noteq> 50)"
proof -
  show p: "servo_pos (smooth_servo t da s) = t"
    using assms by (simp add: smooth_servo_pos)
  show d: "detach_timeout (smooth_servo t da s) =
           (if detach_timeout s < 51 then detach_timeout s + 1 else detach_timeout s)"
    unfolding smooth_servo_timeout p using assms by (simp add: Let_def)
  show "attached (smooth_servo t da s) =
           (attached s \<and> (if detach_timeout s < 51 then detach_timeout s + 1 else detach_timeout s) \<noteq> 50)"
    unfolding smooth_servo_attached d using assms by auto
qed

lemma idle_run:
  assumes "p_desired_servo_pos s = t" "servo_pos s = t" "attached s" "detach_timeout s < 50"
  shows "detach_timeout s + int k \<le> 50 \<Longrightarrow>
         p_desired_servo_pos (servo_run k t da s) = t \<and>
         servo_pos (servo_run k t da s) = t \<and>
         detach_timeout (servo_run k t da s) = detach_timeout s + int k \<and>
         attached (servo_run k t da s) = (detach_timeout s + int k < 50)"
proof (induction k)
  case 0
  then show ?case using assms by simp
next
  case (Suc k)
  let ?u = "servo_run k t da s"
  have u: "p_desired_servo_pos ?u = t" "servo_pos ?u = t"
    "detach_timeout ?u = detach_timeout s + int k" "attached ?u"
    using Suc by simp_all
  have small: "detach_timeout ?u < 51"
    using u(3) Suc.prems by simp
  show ?case
    unfolding servo_run_Suc_end
    using idle_step [OF u(1,2), of da] u(3,4) small Suc.prems
    by (auto simp: smooth_servo_targets)
qed

lemma arrival_step:
  assumes "servo_pos s \<noteq> t" "servo_pos (smooth_servo t da s) = t"
    and "t \<noteq> p_desired_servo_pos s \<or> (attached s \<and> detach_timeout s = 0)"
  shows "detach_timeout (smooth_servo t da s) = 2" "attached (smooth_servo t da s)"
proof -
  show d: "detach_timeout (smooth_servo t da s) = 2"
    unfolding smooth_servo_timeout assms(2) using assms(1,3) by (auto simp: Let_def)
  show "attached (smooth_servo t da s)"
    unfolding smooth_servo_attached d using assms(3) by auto
qed

lemma moving_step:
  assumes "servo_pos (smooth_servo t da s) \<noteq> t"
    and "t \<noteq> p_desired_servo_pos s \<or> (attached s \<and> detach_timeout s = 0)"
  shows "detach_timeout (smooth_servo t da s) = 0" "attached (smooth_servo t da s)"
proof -
  show d: "detach_timeout (smooth_servo t da s) = 0"
    unfolding smooth_servo_timeout using assms by (auto simp: Let_def)
  show "attached (smooth_servo t da s)"
    unfolding smooth_servo_attached d using assms(2) by auto
qed

lemma held_step:
  assumes "servo_pos s = t" "t \<noteq> p_desired_servo_pos s"
  shows "detach_timeout (smooth_servo t da s) = 1" "attached (smooth_servo t da s)"
    "servo_pos (smooth_servo t da s) = t"
proof -
  show p: "servo_pos (smooth_servo t da s) = t"
    using assms by (simp add: smooth_servo_pos)
  show d: "detach_timeout (smooth_servo t da s) = 1"
    unfolding smooth_servo_timeout p using assms by (auto simp: Let_def)
  show "attached (smooth_servo t da s)"
    unfolding smooth_servo_attached d using assms by auto
qed

subsection \<open>Reaching the target\<close>

text \<open>
  C6. Gradual access (\<open>direct_access\<close> 0): one call changes the position by at most one
  unit, from any state. From a start position and with a fixed target, both from 0 to 100,
  the position after \<open>j\<close> calls is \<open>j\<close> units from the start towards the target, capped
  at the target: it is the target after exactly \<open>|start - target|\<close> calls and not before,
  and no call takes it further away. Immediate access (\<open>direct_access\<close> 1): the position
  is the target after one call.
\<close>

theorem servo_converges:
  assumes "0 \<le> servo_pos s" "servo_pos s \<le> 100" "0 \<le> t" "t \<le> 100"
  shows "(\<forall>u. \<bar>servo_pos (smooth_servo t 0 u) - servo_pos u\<bar> \<le> 1) \<and>
         (\<forall>j. servo_pos (servo_run j t 0 s) =
                (if servo_pos s \<le> t then min (servo_pos s + int j) t
                 else max (servo_pos s - int j) t)) \<and>
         servo_pos (servo_run (nat \<bar>servo_pos s - t\<bar>) t 0 s) = t \<and>
         (\<forall>j < nat \<bar>servo_pos s - t\<bar>. servo_pos (servo_run j t 0 s) \<noteq> t) \<and>
         (\<forall>j. \<bar>servo_pos (servo_run (Suc j) t 0 s) - t\<bar> \<le> \<bar>servo_pos (servo_run j t 0 s) - t\<bar>) \<and>
         servo_pos (smooth_servo t 1 s) = t"
proof (intro conjI allI impI)
  fix u show "\<bar>servo_pos (smooth_servo t 0 u) - servo_pos u\<bar> \<le> 1"
    by (simp add: smooth_servo_pos)
next
  fix j show "servo_pos (servo_run j t 0 s) =
                (if servo_pos s \<le> t then min (servo_pos s + int j) t
                 else max (servo_pos s - int j) t)"
    by (rule gradual_run_pos)
next
  show "servo_pos (servo_run (nat \<bar>servo_pos s - t\<bar>) t 0 s) = t"
    by (simp add: gradual_run_pos)
next
  fix j assume "j < nat \<bar>servo_pos s - t\<bar>"
  then show "servo_pos (servo_run j t 0 s) \<noteq> t"
    unfolding gradual_run_pos by (auto simp: min_def max_def)
next
  fix j show "\<bar>servo_pos (servo_run (Suc j) t 0 s) - t\<bar> \<le> \<bar>servo_pos (servo_run j t 0 s) - t\<bar>"
    unfolding servo_run_Suc_end by (rule smooth_servo_closer)
next
  show "servo_pos (smooth_servo t 1 s) = t"
    by (simp add: smooth_servo_pos)
qed

theorem servo_converges_witness:
  "servo_pos (servo_run 60 80 0 (boot_servo\<lparr>servo_pos := 20\<rparr>)) = 80 \<and>
   servo_pos (servo_run 59 80 0 (boot_servo\<lparr>servo_pos := 20\<rparr>)) \<noteq> 80 \<and>
   servo_pos (smooth_servo 80 1 (boot_servo\<lparr>servo_pos := 20\<rparr>)) = 80"
proof -
  let ?s = "boot_servo\<lparr>servo_pos := 20\<rparr>"
  have h: "0 \<le> servo_pos ?s" "servo_pos ?s \<le> 100" "(0::int) \<le> 80" "(80::int) \<le> 100"
    by (simp_all add: boot_servo_def)
  have n: "nat \<bar>servo_pos ?s - 80\<bar> = 60"
    by (simp add: boot_servo_def)
  from servo_converges [OF h]
  have c: "servo_pos (servo_run 60 80 0 ?s) = 80"
    "\<forall>j<60. servo_pos (servo_run j 80 0 ?s) \<noteq> 80"
    "servo_pos (smooth_servo 80 1 ?s) = 80"
    unfolding n by blast+
  have "servo_pos (servo_run 59 80 0 ?s) \<noteq> 80"
    using c(2) [rule_format, of 59] by simp
  with c(1,3) show ?thesis
    by blast
qed

subsection \<open>Attaching and detaching\<close>

lemma retarget_step:
  assumes "t \<noteq> p_desired_servo_pos s"
  shows "attached (retarget (s\<lparr>desired_servo_pos := t\<rparr>))"
    and "detach_timeout (retarget (s\<lparr>desired_servo_pos := t\<rparr>)) = 0"
    and "attached (smooth_servo t da s)"
proof -
  show "attached (retarget (s\<lparr>desired_servo_pos := t\<rparr>))"
    "detach_timeout (retarget (s\<lparr>desired_servo_pos := t\<rparr>)) = 0"
    using assms by (simp_all add: retarget_fields)
  have "detach_timeout (smooth_servo t da s) \<le> 2"
    unfolding smooth_servo_timeout using assms by (auto simp: Let_def)
  then show "attached (smooth_servo t da s)"
    unfolding smooth_servo_attached using assms by auto
qed

lemma detach_after_arrival:
  assumes "servo_pos s \<noteq> t" "servo_pos (smooth_servo t da s) = t"
    and "t \<noteq> p_desired_servo_pos s \<or> (attached s \<and> detach_timeout s = 0)"
  shows "k \<le> 48 \<Longrightarrow> attached (servo_run k t da (smooth_servo t da s)) = (k < 48)"
  using idle_run [of "smooth_servo t da s" t k da] arrival_step [OF assms] assms(2)
  by (simp add: smooth_servo_targets)

lemma detach_after_change_in_place:
  assumes "servo_pos s = t" "t \<noteq> p_desired_servo_pos s"
  shows "k \<le> 49 \<Longrightarrow> attached (servo_run k t da (smooth_servo t da s)) = (k < 49)"
  using idle_run [of "smooth_servo t da s" t k da] held_step [OF assms]
  by (simp add: smooth_servo_targets)

text \<open>
  C7, as the code has it. A target that differs from the previous one attaches the servo
  and sets the idle counter to 0 before the rest of the call, also when the position is
  already the target, and the servo is attached at the end of that call. While target
  and position agree, each call adds one to the counter as long as it is below 51. A call
  leaves the servo attached exactly when its counter is not 50 and the servo was attached
  or the target changed. The call that reaches the target by a move counts twice, so the
  servo stays attached for the next 47 calls and is detached by the 48th after it; after a
  change to the position already held the numbers are 48 and 49.
\<close>

theorem servo_power_lifecycle:
  "(t \<noteq> p_desired_servo_pos s \<longrightarrow>
      attached (retarget (s\<lparr>desired_servo_pos := t\<rparr>)) \<and>
      detach_timeout (retarget (s\<lparr>desired_servo_pos := t\<rparr>)) = 0 \<and>
      attached (smooth_servo t da s)) \<and>
   (p_desired_servo_pos s = t \<and> servo_pos s = t \<and> detach_timeout s < 51 \<longrightarrow>
      detach_timeout (smooth_servo t da s) = detach_timeout s + 1) \<and>
   (attached (smooth_servo t da s) \<longleftrightarrow>
      detach_timeout (smooth_servo t da s) \<noteq> 50 \<and> (t \<noteq> p_desired_servo_pos s \<or> attached s)) \<and>
   (servo_pos s \<noteq> t \<and> servo_pos (smooth_servo t da s) = t \<and>
    (t \<noteq> p_desired_servo_pos s \<or> attached s \<and> detach_timeout s = 0) \<longrightarrow>
      (\<forall>k<48. attached (servo_run k t da (smooth_servo t da s))) \<and>
      \<not> attached (servo_run 48 t da (smooth_servo t da s))) \<and>
   (servo_pos s = t \<and> t \<noteq> p_desired_servo_pos s \<longrightarrow>
      (\<forall>k<49. attached (servo_run k t da (smooth_servo t da s))) \<and>
      \<not> attached (servo_run 49 t da (smooth_servo t da s)))"
proof (intro conjI impI)
  assume "t \<noteq> p_desired_servo_pos s"
  from retarget_step [OF this]
  show "attached (retarget (s\<lparr>desired_servo_pos := t\<rparr>))"
    "detach_timeout (retarget (s\<lparr>desired_servo_pos := t\<rparr>)) = 0"
    "attached (smooth_servo t da s)"
    by simp_all
next
  assume "p_desired_servo_pos s = t \<and> servo_pos s = t \<and> detach_timeout s < 51"
  then show "detach_timeout (smooth_servo t da s) = detach_timeout s + 1"
    using idle_step(1) [of s t da] by simp
next
  show "attached (smooth_servo t da s) \<longleftrightarrow>
      detach_timeout (smooth_servo t da s) \<noteq> 50 \<and> (t \<noteq> p_desired_servo_pos s \<or> attached s)"
    by (rule smooth_servo_attached)
next
  assume a: "servo_pos s \<noteq> t \<and> servo_pos (smooth_servo t da s) = t \<and>
    (t \<noteq> p_desired_servo_pos s \<or> attached s \<and> detach_timeout s = 0)"
  then have *: "\<And>k. k \<le> 48 \<Longrightarrow> attached (servo_run k t da (smooth_servo t da s)) = (k < 48)"
    using detach_after_arrival [of s t da] by blast
  show "\<forall>k<48. attached (servo_run k t da (smooth_servo t da s))"
    using * by simp
  show "\<not> attached (servo_run 48 t da (smooth_servo t da s))"
    using * [of 48] by simp
next
  assume a: "servo_pos s = t \<and> t \<noteq> p_desired_servo_pos s"
  then have *: "\<And>k. k \<le> 49 \<Longrightarrow> attached (servo_run k t da (smooth_servo t da s)) = (k < 49)"
    using detach_after_change_in_place [of s t _ da] by blast
  show "\<forall>k<49. attached (servo_run k t da (smooth_servo t da s))"
    using * by simp
  show "\<not> attached (servo_run 49 t da (smooth_servo t da s))"
    using * [of 49] by simp
qed

lemma moving_run:
  assumes "t \<noteq> p_desired_servo_pos s"
  shows "Suc j < nat \<bar>servo_pos s - t\<bar> \<Longrightarrow>
         attached (servo_run (Suc j) t 0 s) \<and> detach_timeout (servo_run (Suc j) t 0 s) = 0"
proof (induction j)
  case 0
  have "servo_pos (servo_run (Suc 0) t 0 s) \<noteq> t"
    using 0 unfolding gradual_run_pos by (auto simp: min_def max_def)
  then have "servo_pos (smooth_servo t 0 s) \<noteq> t"
    by simp
  from moving_step [OF this] assms show ?case
    by simp
next
  case (Suc j)
  let ?u = "servo_run (Suc j) t 0 s"
  have u: "attached ?u \<and> detach_timeout ?u = 0"
    using Suc by simp
  have e: "servo_run (Suc (Suc j)) t 0 s = smooth_servo t 0 ?u"
    by (rule servo_run_Suc_end)
  have "servo_pos (servo_run (Suc (Suc j)) t 0 s) \<noteq> t"
    using Suc.prems unfolding gradual_run_pos by (auto simp: min_def max_def)
  then have "servo_pos (smooth_servo t 0 ?u) \<noteq> t"
    unfolding e .
  from moving_step [OF this] u show ?case
    unfolding e by blast
qed

text \<open>
  The whole way under gradual access: after a change to a target \<open>n\<close> units away the
  position arrives with call \<open>n\<close>, the servo is attached after each of the calls 1 to
  \<open>n + 47\<close>, and call \<open>n + 48\<close> detaches it.
\<close>

lemma servo_journey:
  assumes change: "t \<noteq> p_desired_servo_pos s" and away: "servo_pos s \<noteq> t"
  shows "servo_pos (servo_run (nat \<bar>servo_pos s - t\<bar>) t 0 s) = t"
    and "1 \<le> j \<Longrightarrow> j < nat \<bar>servo_pos s - t\<bar> + 48 \<Longrightarrow> attached (servo_run j t 0 s)"
    and "\<not> attached (servo_run (nat \<bar>servo_pos s - t\<bar> + 48) t 0 s)"
proof -
  define n where "n = nat \<bar>servo_pos s - t\<bar>"
  from away obtain m where m: "n = Suc m"
    unfolding n_def by (cases "nat \<bar>servo_pos s - t\<bar>") auto
  let ?b = "servo_run m t 0 s"
  let ?a = "smooth_servo t 0 ?b"
  have a: "servo_run n t 0 s = ?a"
    unfolding m by (rule servo_run_Suc_end)
  show at: "servo_pos (servo_run (nat \<bar>servo_pos s - t\<bar>) t 0 s) = t"
    by (simp add: gradual_run_pos)
  have b_away: "servo_pos ?b \<noteq> t"
    using m unfolding n_def gradual_run_pos by (auto simp: min_def max_def)
  have b_state: "t \<noteq> p_desired_servo_pos ?b \<or> (attached ?b \<and> detach_timeout ?b = 0)"
  proof (cases m)
    case 0
    then show ?thesis using change by simp
  next
    case (Suc i)
    then show ?thesis
      using moving_run [OF change, of i] m unfolding n_def by simp
  qed
  have a_at: "servo_pos ?a = t"
    using at a unfolding n_def by simp
  have idle: "k \<le> 48 \<Longrightarrow> attached (servo_run (n + k) t 0 s) = (k < 48)" for k
    unfolding servo_run_add a
    by (rule detach_after_arrival [OF b_away a_at b_state])
  show "\<not> attached (servo_run (nat \<bar>servo_pos s - t\<bar> + 48) t 0 s)"
    using idle [of 48] unfolding n_def by simp
  show "attached (servo_run j t 0 s)" if "1 \<le> j" "j < nat \<bar>servo_pos s - t\<bar> + 48"
  proof (cases "j < n")
    case True
    from that(1) obtain i where i: "j = Suc i"
      by (cases j) auto
    show ?thesis
      using moving_run [OF change, of i] True unfolding i n_def by simp
  next
    case False
    then obtain k where k: "j = n + k"
      using le_Suc_ex [of n j] by auto
    with that(2) have "k < 48"
      unfolding n_def by simp
    then show ?thesis
      using idle [of k] unfolding k by simp
  qed
qed

text \<open>
  The same numbers on a run: from the start of the sketch with target 1, the first call
  reaches the target, and the servo is detached after 48 more calls, not 50.
\<close>

theorem servo_detached_early:
  "servo_pos boot_servo = 0 \<and>
   servo_pos (smooth_servo 1 0 boot_servo) = 1 \<and>
   attached (smooth_servo 1 0 boot_servo) \<and>
   \<not> attached (servo_run 48 1 0 (smooth_servo 1 0 boot_servo))"
  by code_simp

theorem servo_power_lifecycle_witness:
  "attached (smooth_servo 1 0 boot_servo) \<and>
   attached (servo_run 47 1 0 (smooth_servo 1 0 boot_servo)) \<and>
   \<not> attached (servo_run 48 1 0 (smooth_servo 1 0 boot_servo)) \<and>
   detach_timeout (smooth_servo 1 0 (smooth_servo 1 0 boot_servo)) = 3 \<and>
   attached (servo_run 48 0 0 (smooth_servo 0 0 (boot_servo\<lparr>p_desired_servo_pos := 7\<rparr>))) \<and>
   \<not> attached (servo_run 49 0 0 (smooth_servo 0 0 (boot_servo\<lparr>p_desired_servo_pos := 7\<rparr>)))"
proof -
  let ?a = "smooth_servo 1 0 boot_servo"
  let ?h = "boot_servo\<lparr>p_desired_servo_pos := 7\<rparr>"
  have 1: "1 \<noteq> p_desired_servo_pos boot_servo \<and> servo_pos boot_servo \<noteq> 1 \<and> servo_pos ?a = 1"
    by code_simp
  have 2: "p_desired_servo_pos ?a = 1 \<and> servo_pos ?a = 1 \<and> detach_timeout ?a < 51 \<and>
           detach_timeout ?a = 2"
    by code_simp
  have 3: "servo_pos ?h = 0 \<and> 0 \<noteq> p_desired_servo_pos ?h"
    by code_simp
  have a: "attached ?a" "\<forall>k<48. attached (servo_run k 1 0 ?a)"
    "\<not> attached (servo_run 48 1 0 ?a)"
    using servo_power_lifecycle [of 1 boot_servo 0] 1 by blast+
  have b: "detach_timeout (smooth_servo 1 0 ?a) = 3"
    using servo_power_lifecycle [of 1 ?a 0] 2 by simp
  have c: "\<forall>k<49. attached (servo_run k 0 0 (smooth_servo 0 0 ?h))"
    "\<not> attached (servo_run 49 0 0 (smooth_servo 0 0 ?h))"
    using servo_power_lifecycle [of 0 ?h 0] 3 by blast+
  have "attached (servo_run 47 1 0 ?a)"
    using a(2) [rule_format, of 47] by simp
  moreover have "attached (servo_run 48 0 0 (smooth_servo 0 0 ?h))"
    using c(1) [rule_format, of 48] by simp
  ultimately show ?thesis
    using a(1,3) b c(2) by blast
qed


section \<open>The crank governor\<close>

subsection \<open>The three steps of a call\<close>

lemma detect_rotation_fields:
  "rotation_trigger (detect_rotation closed s) = (if closed \<and> rotation s = 0 then 1 else 0)"
  "rotation (detect_rotation closed s) =
     (if closed then (if rotation s = 0 then 1 else rotation s) else 0)"
  "crank_time (detect_rotation closed s) = crank_time s"
  "p_crank_time (detect_rotation closed s) = p_crank_time s"
  "ms_per_rotation (detect_rotation closed s) = ms_per_rotation s"
  "crank_speed_limit_count (detect_rotation closed s) = crank_speed_limit_count s"
  "clutch (detect_rotation closed s) = clutch s"
  "mixer (detect_rotation closed s) = mixer s"
  "light (detect_rotation closed s) = light s"
  "waited_ms (detect_rotation closed s) = waited_ms s"
  by (simp_all add: detect_rotation_def Let_def)

lemma measure_turn_skipped: "rotation_trigger s \<noteq> 1 \<Longrightarrow> measure_turn c now s = s"
  by (simp add: measure_turn_def)

lemma measure_turn_fields:
  assumes "rotation_trigger s = 1"
  shows "ms_per_rotation (measure_turn c now s) = now - crank_time s"
    and "crank_time (measure_turn c now s) = now"
    and "p_crank_time (measure_turn c now s) = crank_time s"
    and "crank_speed_limit_count (measure_turn c now s) =
           (if sint (now - crank_time s) < rpm_thresh c then crank_speed_limit_count s + 1 else 0)"
    and "rotation (measure_turn c now s) = rotation s"
    and "rotation_trigger (measure_turn c now s) = 1"
    and "clutch (measure_turn c now s) = clutch s"
    and "mixer (measure_turn c now s) = mixer s"
    and "light (measure_turn c now s) = light s"
    and "waited_ms (measure_turn c now s) = waited_ms s"
  using assms by (simp_all add: measure_turn_def Let_def)

lemma wait_seconds_eq: "wait_seconds i s = s\<lparr>waited_ms := waited_ms s + 1000 * nat i\<rparr>"
proof (induction i s rule: wait_seconds.induct)
  case (1 i s)
  show ?case
  proof (cases "0 < i")
    case True
    then have "Suc (nat (i - 1)) = nat i"
      by simp
    then have n: "1000 + 1000 * nat (i - 1) = 1000 * nat i"
      by (metis mult_Suc_right)
    have "wait_seconds i s = wait_seconds (i - 1) (s\<lparr>waited_ms := waited_ms s + 1000\<rparr>)"
      using True by (subst wait_seconds.simps) simp
    also have "\<dots> = s\<lparr>waited_ms := waited_ms s + 1000 + 1000 * nat (i - 1)\<rparr>"
      using "1" [OF True] by simp
    finally show ?thesis
      using n by (simp add: add.assoc)
  next
    case False
    then show ?thesis
      by (subst wait_seconds.simps) simp
  qed
qed

lemma switch_off_eq:
  "switch_off c s =
     (if 5 \<le> crank_speed_limit_count s
      then s\<lparr>clutch := False, waited_ms := waited_ms s + 1000 * nat (off_delay c),
             crank_speed_limit_count := 0\<rparr>
      else s)"
  by (simp add: switch_off_def wait_seconds_eq)

lemma measure_turn_frame:
  "rotation (measure_turn c now s) = rotation s"
  "rotation_trigger (measure_turn c now s) = rotation_trigger s"
  "clutch (measure_turn c now s) = clutch s"
  "mixer (measure_turn c now s) = mixer s"
  "light (measure_turn c now s) = light s"
  "waited_ms (measure_turn c now s) = waited_ms s"
  by (simp_all add: measure_turn_def Let_def)

lemma rotation_after: "(rotation (measure_crank_speed c closed now s) = 0) = (\<not> closed)"
  unfolding measure_crank_speed_def switch_off_eq
  by (simp add: measure_turn_frame detect_rotation_fields)

lemma trigger_after:
  "rotation_trigger (measure_crank_speed c closed now s) = (if closed \<and> rotation s = 0 then 1 else 0)"
  unfolding measure_crank_speed_def switch_off_eq
  by (simp add: measure_turn_frame detect_rotation_fields)

lemma count_after: "crank_speed_limit_count (measure_crank_speed c closed now s) < 5"
  unfolding measure_crank_speed_def switch_off_eq by simp

lemma no_rotation:
  assumes "\<not> (closed \<and> rotation s = 0)" "crank_speed_limit_count s < 5"
  shows "measure_crank_speed c closed now s =
           s\<lparr>rotation_trigger := 0, rotation := (if closed then rotation s else 0)\<rparr>"
proof -
  let ?d = "detect_rotation closed s"
  have d: "?d = s\<lparr>rotation_trigger := 0, rotation := (if closed then rotation s else 0)\<rparr>"
    using assms(1) by (auto simp: detect_rotation_def Let_def)
  have "rotation_trigger ?d \<noteq> 1"
    using assms(1) by (simp add: detect_rotation_fields)
  then have "measure_turn c now ?d = ?d"
    by (rule measure_turn_skipped)
  moreover have "crank_speed_limit_count ?d < 5"
    using assms(2) by (simp add: detect_rotation_fields)
  ultimately show ?thesis
    unfolding measure_crank_speed_def switch_off_eq d by simp
qed

lemma new_rotation:
  assumes "rotation s = 0"
  shows "measure_crank_speed c True now s =
           switch_off c
             (s\<lparr>rotation := 1, rotation_trigger := 1, p_crank_time := crank_time s,
                crank_time := now, ms_per_rotation := now - crank_time s,
                crank_speed_limit_count :=
                  (if sint (now - crank_time s) < rpm_thresh c
                   then crank_speed_limit_count s + 1 else 0)\<rparr>)"
  using assms
  by (simp add: measure_crank_speed_def detect_rotation_def measure_turn_def Let_def)

lemma held_run:
  "rotation s \<noteq> 0 \<Longrightarrow> crank_speed_limit_count s < 5 \<Longrightarrow>
   crank_run c (map (Pair True) nows) s = (if nows = [] then s else s\<lparr>rotation_trigger := 0\<rparr>)"
proof (induction nows arbitrary: s)
  case Nil
  then show ?case by simp
next
  case (Cons t nows)
  have step: "measure_crank_speed c True t s = s\<lparr>rotation_trigger := 0\<rparr>"
    using no_rotation [of True s c t] Cons.prems by simp
  have "crank_run c (map (Pair True) nows) (s\<lparr>rotation_trigger := 0\<rparr>) = s\<lparr>rotation_trigger := 0\<rparr>"
    using Cons.IH [of "s\<lparr>rotation_trigger := 0\<rparr>"] Cons.prems by simp
  with step show ?case
    by simp
qed

subsection \<open>Counting and switching off\<close>

text \<open>
  C2. In the measurement of a new rotation the interval is the time since the previous
  closing of the switch, and the counter becomes its old value plus one when the interval
  is strictly below the threshold and 0 otherwise; an interval equal to the threshold
  therefore resets it to 0.
\<close>

theorem interval_counted:
  "rotation_trigger s = 1 \<longrightarrow>
     ms_per_rotation (measure_turn c now s) = now - crank_time s \<and>
     crank_speed_limit_count (measure_turn c now s) =
       (if sint (ms_per_rotation (measure_turn c now s)) < rpm_thresh c
        then crank_speed_limit_count s + 1 else 0) \<and>
     (sint (ms_per_rotation (measure_turn c now s)) = rpm_thresh c \<longrightarrow>
        crank_speed_limit_count (measure_turn c now s) = 0)"
  by (simp add: measure_turn_fields)

theorem interval_counted_witness:
  "rotation_trigger (detect_rotation True boot_governor) = 1 \<and>
   crank_speed_limit_count (measure_turn example_config 150 (detect_rotation True boot_governor)) = 1 \<and>
   crank_speed_limit_count
     (measure_turn example_config 200
        ((detect_rotation True boot_governor)\<lparr>crank_speed_limit_count := 3\<rparr>)) = 0"
proof -
  let ?d = "detect_rotation True boot_governor"
  have t: "rotation_trigger ?d = 1" "rotation_trigger (?d\<lparr>crank_speed_limit_count := 3\<rparr>) = 1"
    by (simp_all add: detect_rotation_def boot_governor_def)
  have v: "crank_time ?d = 0" "crank_speed_limit_count ?d = 0" "rpm_thresh example_config = 200"
    by (simp_all add: detect_rotation_def boot_governor_def example_config_def)
  show ?thesis
    using interval_counted [of ?d example_config 150]
      interval_counted [of "?d\<lparr>crank_speed_limit_count := 3\<rparr>" example_config 200] t v
    by simp
qed

text \<open>
  Below the fifth fast rotation nothing is switched: a fast rotation that takes the counter
  to less than 5 only counts, and the open switch afterwards only clears the flag.
\<close>

lemma fast_rotation_below_five:
  assumes "rotation s = 0" "crank_speed_limit_count s + 1 < 5"
    and "sint (now - crank_time s) < rpm_thresh c"
  shows "measure_crank_speed c True now s =
           s\<lparr>rotation := 1, rotation_trigger := 1, p_crank_time := crank_time s,
             crank_time := now, ms_per_rotation := now - crank_time s,
             crank_speed_limit_count := crank_speed_limit_count s + 1\<rparr>"
  unfolding new_rotation [OF assms(1)] switch_off_eq using assms(2,3) by simp

text \<open>
  C1. When the counter stands at 4 and a rotation below the threshold is registered, the
  same call switches the clutch off, waits \<open>off_delay\<close> seconds and leaves the counter
  at 0. After that, the switch opening and closing again gives a counter of 1 for a fast
  rotation (0 for a slow one), no further wait, and the clutch pin is not written: the
  sixth fast rotation does not start a second switch-off.
\<close>

theorem fifth_fast_rotation_locks_out:
  assumes "crank_speed_limit_count s = 4" "rotation s = 0"
    and "sint (now - crank_time s) < rpm_thresh c"
  shows "\<not> clutch (measure_crank_speed c True now s) \<and>
         waited_ms (measure_crank_speed c True now s) = waited_ms s + 1000 * nat (off_delay c) \<and>
         crank_speed_limit_count (measure_crank_speed c True now s) = 0 \<and>
         (\<forall>now1 now2.
            crank_speed_limit_count
              (measure_crank_speed c True now2
                 (measure_crank_speed c False now1 (measure_crank_speed c True now s))) =
              (if sint (now2 - now) < rpm_thresh c then 1 else 0) \<and>
            waited_ms
              (measure_crank_speed c True now2
                 (measure_crank_speed c False now1 (measure_crank_speed c True now s))) =
              waited_ms (measure_crank_speed c True now s) \<and>
            \<not> clutch
              (measure_crank_speed c True now2
                 (measure_crank_speed c False now1 (measure_crank_speed c True now s))))"
proof -
  let ?s5 = "measure_crank_speed c True now s"
  have s5: "?s5 = s\<lparr>rotation := 1, rotation_trigger := 1, p_crank_time := crank_time s,
                     crank_time := now, ms_per_rotation := now - crank_time s,
                     crank_speed_limit_count := 0, clutch := False,
                     waited_ms := waited_ms s + 1000 * nat (off_delay c)\<rparr>"
    unfolding new_rotation [OF assms(2)] switch_off_eq using assms(1,3) by simp
  have first: "\<not> clutch ?s5" "waited_ms ?s5 = waited_ms s + 1000 * nat (off_delay c)"
    "crank_speed_limit_count ?s5 = 0"
    unfolding s5 by simp_all
  have later: "crank_speed_limit_count (measure_crank_speed c True now2 (measure_crank_speed c False now1 ?s5)) =
              (if sint (now2 - now) < rpm_thresh c then 1 else 0) \<and>
            waited_ms (measure_crank_speed c True now2 (measure_crank_speed c False now1 ?s5)) =
              waited_ms ?s5 \<and>
            \<not> clutch (measure_crank_speed c True now2 (measure_crank_speed c False now1 ?s5))"
    for now1 now2
  proof -
    let ?o = "measure_crank_speed c False now1 ?s5"
    have o: "?o = ?s5\<lparr>rotation_trigger := 0, rotation := 0\<rparr>"
      using no_rotation [of False ?s5 c now1] first(3) by simp
    have r: "rotation ?o = 0" "crank_time ?o = now" "crank_speed_limit_count ?o = 0"
      "waited_ms ?o = waited_ms ?s5" "\<not> clutch ?o"
      unfolding o using first by (simp_all add: s5)
    show ?thesis
      unfolding new_rotation [OF r(1)] switch_off_eq using r by simp
  qed
  from first later show ?thesis
    by blast
qed

lemma four_fast_turns_state:
  "crank_run example_config four_fast_turns boot_governor =
     \<lparr>rotation = 0, rotation_trigger = 0, crank_time = 1400, p_crank_time = 1300,
      ms_per_rotation = 100, crank_speed_limit_count = 4,
      clutch = False, mixer = True, light = True, waited_ms = 0\<rparr>"
  by (simp add: four_fast_turns_def boot_governor_def example_config_def
      measure_crank_speed_def detect_rotation_def measure_turn_def switch_off_eq Let_def)

theorem fifth_fast_rotation_locks_out_witness:
  "crank_speed_limit_count (crank_run example_config four_fast_turns boot_governor) = 4 \<and>
   rotation (crank_run example_config four_fast_turns boot_governor) = 0 \<and>
   sint (1500 - crank_time (crank_run example_config four_fast_turns boot_governor))
     < rpm_thresh example_config \<and>
   \<not> clutch (measure_crank_speed example_config True 1500
               (crank_run example_config four_fast_turns boot_governor)) \<and>
   waited_ms (measure_crank_speed example_config True 1500
               (crank_run example_config four_fast_turns boot_governor)) = 3000 \<and>
   crank_speed_limit_count (measure_crank_speed example_config True 1500
               (crank_run example_config four_fast_turns boot_governor)) = 0 \<and>
   crank_speed_limit_count
     (measure_crank_speed example_config True 1600
        (measure_crank_speed example_config False 1550
           (measure_crank_speed example_config True 1500
              (crank_run example_config four_fast_turns boot_governor)))) = 1"
proof -
  let ?s = "crank_run example_config four_fast_turns boot_governor"
  have h: "crank_speed_limit_count ?s = 4" "rotation ?s = 0"
    "sint (1500 - crank_time ?s) < rpm_thresh example_config"
    unfolding four_fast_turns_state by (simp_all add: example_config_def)
  have w: "waited_ms ?s = 0" "off_delay example_config = 3" "rpm_thresh example_config = 200"
    unfolding four_fast_turns_state by (simp_all add: example_config_def)
  have f: "sint (1600 - 1500 :: 32 word) < 200"
    by simp
  from fifth_fast_rotation_locks_out [OF h] h w f show ?thesis
    by simp
qed

text \<open>
  C9. Of two successive calls, the second registers a rotation exactly when the switch is
  closed in it and was open in the first. In every other case the second call leaves the
  interval, both crank times, the counter and the waiting time as they were. The same
  holds for any number of calls during which the switch stays closed.
\<close>

theorem held_switch_not_recounted:
  "rotation_trigger (measure_crank_speed c closed t1 (measure_crank_speed c prev t0 s)) =
     (if closed \<and> \<not> prev then 1 else 0) \<and>
   (\<not> (closed \<and> \<not> prev) \<longrightarrow>
      ms_per_rotation (measure_crank_speed c closed t1 (measure_crank_speed c prev t0 s)) =
        ms_per_rotation (measure_crank_speed c prev t0 s) \<and>
      crank_time (measure_crank_speed c closed t1 (measure_crank_speed c prev t0 s)) =
        crank_time (measure_crank_speed c prev t0 s) \<and>
      p_crank_time (measure_crank_speed c closed t1 (measure_crank_speed c prev t0 s)) =
        p_crank_time (measure_crank_speed c prev t0 s) \<and>
      crank_speed_limit_count (measure_crank_speed c closed t1 (measure_crank_speed c prev t0 s)) =
        crank_speed_limit_count (measure_crank_speed c prev t0 s) \<and>
      waited_ms (measure_crank_speed c closed t1 (measure_crank_speed c prev t0 s)) =
        waited_ms (measure_crank_speed c prev t0 s)) \<and>
   (\<forall>nows.
      ms_per_rotation (crank_run c (map (Pair True) nows) (measure_crank_speed c True t0 s)) =
        ms_per_rotation (measure_crank_speed c True t0 s) \<and>
      crank_time (crank_run c (map (Pair True) nows) (measure_crank_speed c True t0 s)) =
        crank_time (measure_crank_speed c True t0 s) \<and>
      crank_speed_limit_count (crank_run c (map (Pair True) nows) (measure_crank_speed c True t0 s)) =
        crank_speed_limit_count (measure_crank_speed c True t0 s) \<and>
      waited_ms (crank_run c (map (Pair True) nows) (measure_crank_speed c True t0 s)) =
        waited_ms (measure_crank_speed c True t0 s))"
proof (intro conjI allI impI)
  let ?s1 = "measure_crank_speed c prev t0 s"
  show "rotation_trigger (measure_crank_speed c closed t1 ?s1) = (if closed \<and> \<not> prev then 1 else 0)"
    unfolding trigger_after rotation_after ..
  assume "\<not> (closed \<and> \<not> prev)"
  then have "\<not> (closed \<and> rotation ?s1 = 0)"
    unfolding rotation_after .
  from no_rotation [OF this count_after, of c t1]
  have e: "measure_crank_speed c closed t1 ?s1 =
      ?s1\<lparr>rotation_trigger := 0, rotation := if closed then rotation ?s1 else 0\<rparr>" .
  show "ms_per_rotation (measure_crank_speed c closed t1 ?s1) = ms_per_rotation ?s1"
    "crank_time (measure_crank_speed c closed t1 ?s1) = crank_time ?s1"
    "p_crank_time (measure_crank_speed c closed t1 ?s1) = p_crank_time ?s1"
    "crank_speed_limit_count (measure_crank_speed c closed t1 ?s1) = crank_speed_limit_count ?s1"
    "waited_ms (measure_crank_speed c closed t1 ?s1) = waited_ms ?s1"
    unfolding e by simp_all
next
  fix nows
  let ?s1 = "measure_crank_speed c True t0 s"
  have "rotation ?s1 \<noteq> 0"
    using rotation_after [of c True t0 s] by simp
  from held_run [OF this count_after, of c nows]
  have e: "crank_run c (map (Pair True) nows) ?s1 =
             (if nows = [] then ?s1 else ?s1\<lparr>rotation_trigger := 0\<rparr>)" .
  show "ms_per_rotation (crank_run c (map (Pair True) nows) ?s1) = ms_per_rotation ?s1"
    "crank_time (crank_run c (map (Pair True) nows) ?s1) = crank_time ?s1"
    "crank_speed_limit_count (crank_run c (map (Pair True) nows) ?s1) = crank_speed_limit_count ?s1"
    "waited_ms (crank_run c (map (Pair True) nows) ?s1) = waited_ms ?s1"
    unfolding e by simp_all
qed

theorem held_switch_not_recounted_witness:
  "rotation_trigger
     (measure_crank_speed example_config True 1500
        (measure_crank_speed example_config False 1450 boot_governor)) = 1 \<and>
   rotation_trigger
     (measure_crank_speed example_config True 1515
        (measure_crank_speed example_config True 1500 boot_governor)) = 0 \<and>
   crank_speed_limit_count
     (measure_crank_speed example_config True 1515
        (measure_crank_speed example_config True 1500 boot_governor)) =
     crank_speed_limit_count (measure_crank_speed example_config True 1500 boot_governor) \<and>
   ms_per_rotation
     (measure_crank_speed example_config True 1515
        (measure_crank_speed example_config True 1500 boot_governor)) =
     ms_per_rotation (measure_crank_speed example_config True 1500 boot_governor)"
  using held_switch_not_recounted [of example_config True 1500 False 1450 boot_governor]
    held_switch_not_recounted [of example_config True 1515 True 1500 boot_governor]
  by simp


section \<open>The stored settings\<close>

lemma EEPROM_read_write: "EEPROM_read (EEPROM_write e a v) a = v mod 256"
  by (simp add: EEPROM_read_def EEPROM_write_def uint_word_of_int)

lemma EEPROM_read_other: "a \<noteq> b \<Longrightarrow> EEPROM_read (EEPROM_write e a v) b = EEPROM_read e b"
  by (simp add: EEPROM_read_def EEPROM_write_def)

lemma EEPROM_byte_roundtrip:
  "0 \<le> v \<Longrightarrow> v < 256 \<Longrightarrow> EEPROM_read (EEPROM_write e a v) a = v"
  by (simp add: EEPROM_read_write)

lemma crank_settings_reread:
  "rpm_thresh (setup_read MCMC (save_crank_speed c e) c0) = rpm_thresh c mod 256"
  "off_delay (setup_read MCMC (save_crank_speed c e) c0) = off_delay c mod 256"
  by (simp_all add: setup_read_def save_crank_speed_def Let_def EEPROM_read_write
      EEPROM_read_other OFF_DELAY_def RPM_THRESH_def)

lemma trigger_times_reread:
  "day_hour (setup_read p (save_trigger_times c e) c0) = day_hour c mod 256"
  "day_minute (setup_read p (save_trigger_times c e) c0) = day_minute c mod 256"
  "evening_hour (setup_read p (save_trigger_times c e) c0) = evening_hour c mod 256"
  "evening_minute (setup_read p (save_trigger_times c e) c0) = evening_minute c mod 256"
  "night_hour (setup_read p (save_trigger_times c e) c0) = night_hour c mod 256"
  "night_minute (setup_read p (save_trigger_times c e) c0) = night_minute c mod 256"
  by (cases p; simp add: setup_read_def save_trigger_times_def Let_def EEPROM_read_write
      EEPROM_read_other DAY_HOUR_def DAY_MINUTE_def EVENING_HOUR_def EVENING_MINUTE_def
      NIGHT_HOUR_def NIGHT_MINUTE_def)+

lemma volumes_reread:
  "day_volume (setup_read p (save_volume_day c e) c0) = day_volume c mod 256"
  "evening_volume (setup_read p (save_volume_evening c e) c0) = evening_volume c mod 256"
  "night_volume (setup_read TBC (save_volume_night c e) c0) = night_volume c mod 256"
  by (cases p; simp add: setup_read_def save_volume_day_def save_volume_evening_def
      save_volume_night_def Let_def EEPROM_read_write)+

lemma edit_crank_speed_example:
  "rpm_thresh (edit_crank_speed 538 0 c) = 1000" "off_delay (edit_crank_speed 538 0 c) = 999"
  by (simp_all add: edit_crank_speed_def arduino_map_def tdiv_def)

text \<open>
  C8. The claim fails on the crank settings. A potentiometer reading of 538 sets the
  threshold to 1000 ms and a reading of 0 sets the switch-off time to 999 s, both inside
  the ranges of the menu; saved by \<^verbatim>\<open>set_crank_speed\<close> and read again by
  \<^verbatim>\<open>setup()\<close> they come back as 232 and 231, the low bytes. Values from 0 to 255
  (hours, minutes, volumes) are read back as written, by the lemmas above.
\<close>

theorem crank_settings_truncated:
  "rpm_thresh (edit_crank_speed 538 0 c) = 1000 \<and>
   off_delay (edit_crank_speed 538 0 c) = 999 \<and>
   rpm_thresh (setup_read MCMC (save_crank_speed (edit_crank_speed 538 0 c) e) c0) = 232 \<and>
   off_delay (setup_read MCMC (save_crank_speed (edit_crank_speed 538 0 c) e) c0) = 231"
  by (simp add: crank_settings_reread edit_crank_speed_example)

section \<open>The night switch-off\<close>

lemma auto_off_at_night_fields:
  "clutch (auto_off_at_night mt g) = (if mt = 1 \<or> mt = 2 then True else if mt = 3 then False else clutch g)"
  "mixer (auto_off_at_night mt g) = (if mt = 1 \<or> mt = 2 then True else if mt = 3 then False else mixer g)"
  "light (auto_off_at_night mt g) = (if mt = 1 \<or> mt = 2 then True else if mt = 3 then False else light g)"
  by (simp_all add: auto_off_at_night_def Let_def)

lemma measure_crank_speed_pins:
  "mixer (measure_crank_speed c closed now g) = mixer g"
  "light (measure_crank_speed c closed now g) = light g"
  "\<not> clutch g \<Longrightarrow> \<not> clutch (measure_crank_speed c closed now g)"
  unfolding measure_crank_speed_def switch_off_eq
  by (simp_all add: measure_turn_frame detect_rotation_fields)

text \<open>
  Day and night both at 08:00, queried at 08:00 with a volume of 40 from the evening: the
  period is night, and the volume has become the day volume 80.
\<close>

theorem night_changes_volume_on_shared_minute:
  "volume (boot_matcher\<lparr>volume := 40\<rparr>) = 40 \<and>
   set_volume_to_current_time 1440 MCMC shared_night_config 8 0 (boot_matcher\<lparr>volume := 40\<rparr>) =
     Some \<lparr>volume = 80, match_time = 3, scan_hour = 7, scan_minute = 59\<rparr>"
  by code_simp

text \<open>
  C10, as the code has it. In the machine controller, when a pass of the main loop ends
  with the period night, the volume is the one from before the pass unless the night
  entry shares its minute with the evening entry (then it is the evening volume) or, failing
  that, with the day entry (then it is the day volume). The servo is commanded with that
  volume, and clutch, mixer and light are off after the pass.
\<close>

theorem night_keeps_volume:
  assumes run: "loop_tail n c now_hour now_minute closed now (ms, sv, g) = Some (ms', sv', g')"
    and night: "match_time ms' = 3"
  shows "volume ms' =
           (if night_hour c = evening_hour c \<and> night_minute c = evening_minute c
            then evening_volume c
            else if night_hour c = day_hour c \<and> night_minute c = day_minute c
            then day_volume c
            else volume ms) \<and>
         desired_servo_pos sv' = volume ms' \<and>
         \<not> clutch g' \<and> \<not> mixer g' \<and> \<not> light g'"
proof -
  from run have m: "set_volume_to_current_time n MCMC c now_hour now_minute ms = Some ms'"
    and sv: "sv' = smooth_servo (volume ms') 0 sv"
    and g: "g' = measure_crank_speed c closed now (auto_off_at_night (match_time ms') g)"
    by (auto simp: loop_tail_def split: option.splits)
  have v0: "volume (ms\<lparr>scan_minute := now_minute, scan_hour := now_hour, match_time := 0\<rparr>) =
            volume ms"
    by simp
  have "volume ms' =
           (if night_hour c = evening_hour c \<and> night_minute c = evening_minute c
            then evening_volume c
            else if night_hour c = day_hour c \<and> night_minute c = day_minute c
            then day_volume c
            else volume (ms\<lparr>scan_minute := now_minute, scan_hour := now_hour, match_time := 0\<rparr>))"
    using m night unfolding set_volume_to_current_time_def
    by (intro scan_loop_night_volume) simp_all
  then have v: "volume ms' =
           (if night_hour c = evening_hour c \<and> night_minute c = evening_minute c
            then evening_volume c
            else if night_hour c = day_hour c \<and> night_minute c = day_minute c
            then day_volume c
            else volume ms)"
    unfolding v0 .
  have d: "desired_servo_pos sv' = volume ms'"
    unfolding sv by (rule smooth_servo_targets)
  have pins: "\<not> clutch g'" "\<not> mixer g'" "\<not> light g'"
    unfolding g night by (simp_all add: measure_crank_speed_pins auto_off_at_night_fields)
  from v d pins show ?thesis
    by blast
qed

theorem night_keeps_volume_witness:
  "loop_tail 1440 example_config 23 30 False 0
     (boot_matcher\<lparr>volume := 40\<rparr>, boot_servo, boot_governor\<lparr>clutch := True\<rparr>) =
   Some (\<lparr>volume = 40, match_time = 3, scan_hour = 22, scan_minute = 59\<rparr>,
         smooth_servo 40 0 boot_servo,
         measure_crank_speed example_config False 0
           (auto_off_at_night 3 (boot_governor\<lparr>clutch := True\<rparr>))) \<and>
   desired_servo_pos (smooth_servo 40 0 boot_servo) = 40 \<and>
   \<not> clutch (measure_crank_speed example_config False 0
               (auto_off_at_night 3 (boot_governor\<lparr>clutch := True\<rparr>))) \<and>
   \<not> mixer (measure_crank_speed example_config False 0
               (auto_off_at_night 3 (boot_governor\<lparr>clutch := True\<rparr>))) \<and>
   \<not> light (measure_crank_speed example_config False 0
               (auto_off_at_night 3 (boot_governor\<lparr>clutch := True\<rparr>)))"
proof -
  have m: "set_volume_to_current_time 1440 MCMC example_config 23 30 (boot_matcher\<lparr>volume := 40\<rparr>) =
     Some \<lparr>volume = 40, match_time = 3, scan_hour = 22, scan_minute = 59\<rparr>"
    by code_simp
  have r: "loop_tail 1440 example_config 23 30 False 0
     (boot_matcher\<lparr>volume := 40\<rparr>, boot_servo, boot_governor\<lparr>clutch := True\<rparr>) =
   Some (\<lparr>volume = 40, match_time = 3, scan_hour = 22, scan_minute = 59\<rparr>,
         smooth_servo 40 0 boot_servo,
         measure_crank_speed example_config False 0
           (auto_off_at_night 3 (boot_governor\<lparr>clutch := True\<rparr>)))"
    by (simp add: loop_tail_def m)
  from night_keeps_volume [OF r] r show ?thesis
    by simp
qed

end
